theory Spec2Isabelle
  imports Main "HOL-Library.AList"
begin

section \<open>Go integers\<close>

text \<open>
  The server is built for 64-bit Linux, where Go's \<^verbatim>\<open>int\<close> is a 64-bit two's-complement
  integer whose \<^verbatim>\<open>+\<close>, \<^verbatim>\<open>-\<close> and \<^verbatim>\<open>*\<close> wrap silently. A Go \<^verbatim>\<open>int\<close> is modelled as an
  \<^typ>\<open>int\<close> in the range \<open>[-2^63, 2^63)\<close>, and every arithmetic operation of the source is
  followed by \<open>wrap64\<close>. Integer division truncates towards zero and panics on a zero
  divisor; indexing a slice out of range panics as well.
\<close>

definition MaxInt :: int where
  "MaxInt = 9223372036854775807"

definition MinInt :: int where
  "MinInt = - 9223372036854775808"

definition wrap64 :: "int \<Rightarrow> int" where
  "wrap64 x = (x + 9223372036854775808) mod 18446744073709551616 - 9223372036854775808"

definition go_add :: "int \<Rightarrow> int \<Rightarrow> int" where
  "go_add a b = wrap64 (a + b)"

definition go_sub :: "int \<Rightarrow> int \<Rightarrow> int" where
  "go_sub a b = wrap64 (a - b)"

definition go_mul :: "int \<Rightarrow> int \<Rightarrow> int" where
  "go_mul a b = wrap64 (a * b)"

text \<open>
  \<open>DivideByZero\<close> is the runtime error of an integer division by zero; \<open>OutOfRange\<close>
  stands for the runtime errors of an index out of range and of a slice capacity out
  of range.
\<close>

datatype go_panic = DivideByZero | OutOfRange

definition go_div :: "int \<Rightarrow> int \<Rightarrow> go_panic + int" where
  "go_div a b =
     (if b = 0 then Inl DivideByZero
      else Inr (wrap64 (sgn a * sgn b * (\<bar>a\<bar> div \<bar>b\<bar>))))"

section \<open>Data model (internal/model/user.go)\<close>

text \<open>A \<^verbatim>\<open>time.Time\<close> is a clock reading, here a number of nanoseconds.\<close>

type_synonym time = int

record User =
  ID :: int
  Email :: string
  FirstName :: string
  LastName :: string
  Age :: int
  Phone :: string
  Status :: string
  CreatedAt :: time
  UpdatedAt :: time

record CreateUserRequest =
  req_Email :: string
  req_FirstName :: string
  req_LastName :: string
  req_Age :: int
  req_Phone :: string

text \<open>The pointer fields of \<^verbatim>\<open>UpdateUserRequest\<close>: \<open>None\<close> is the nil pointer.\<close>

record UpdateUserRequest =
  upd_Email :: "string option"
  upd_FirstName :: "string option"
  upd_LastName :: "string option"
  upd_Age :: "int option"
  upd_Phone :: "string option"
  upd_Status :: "string option"

record MetaData =
  Page :: int
  PerPage :: int
  Total :: int
  TotalPages :: int

record UserListResponse =
  Users :: "User list"
  Meta :: MetaData

section \<open>The store (internal/service/user.go)\<close>

text \<open>
  \<^verbatim>\<open>users map[int]*model.User\<close> is an association list read through \<open>map_of\<close> and
  written through \<open>AList.update\<close> and \<open>AList.delete\<close>. Each entry of the Go map points to
  a \<^verbatim>\<open>User\<close> of its own (allocated by \<^verbatim>\<open>CreateUser\<close>), so writing through the pointer in
  \<^verbatim>\<open>UpdateUser\<close> is writing the entry back. A \<^verbatim>\<open>range\<close> loop over the map visits the
  entries in an order that Go leaves open; the model visits them in the order of the
  list. The mutex is not modelled: every operation is one atomic step.
\<close>

record UserService =
  users :: "(int \<times> User) list"
  nextID :: int

definition NewUserService :: UserService where
  "NewUserService = \<lparr>users = [], nextID = 1\<rparr>"

text \<open>
  The two error sites of the store, \<^verbatim>\<open>fmt.Errorf("user with ID %d not found", id)\<close> and
  \<^verbatim>\<open>fmt.Errorf("user with email %s already exists", email)\<close>, with the message that
  \<^verbatim>\<open>err.Error()\<close> returns.
\<close>

datatype store_error = NotFound int | DuplicateKey string

fun digit_char :: "nat \<Rightarrow> char" where
  "digit_char n = char_of (48 + n mod 10)"

fun FormatUint :: "nat \<Rightarrow> string" where
  "FormatUint n = (if n < 10 then [digit_char n] else FormatUint (n div 10) @ [digit_char n])"

declare FormatUint.simps [simp del]

definition FormatInt :: "int \<Rightarrow> string" where
  "FormatInt i = (if i < 0 then CHR ''-'' # FormatUint (nat (- i)) else FormatUint (nat i))"

fun Error :: "store_error \<Rightarrow> string" where
  "Error (NotFound i) = ''user with ID '' @ FormatInt i @ '' not found''"
| "Error (DuplicateKey e) = ''user with email '' @ e @ '' already exists''"

text \<open>
  \<^verbatim>\<open>CreateUser\<close> reads the clock twice, once for \<^verbatim>\<open>CreatedAt\<close> and once for
  \<^verbatim>\<open>UpdatedAt\<close>: \<open>t1\<close> and \<open>t2\<close> are the two readings.
\<close>

definition CreateUser ::
  "UserService \<Rightarrow> CreateUserRequest \<Rightarrow> time \<Rightarrow> time \<Rightarrow> (store_error + User) \<times> UserService" where
  "CreateUser s req t1 t2 =
     (if list_ex (\<lambda>user. Email user = req_Email req) (map snd (users s))
      then (Inl (DuplicateKey (req_Email req)), s)
      else
        let user = \<lparr>ID = nextID s, Email = req_Email req, FirstName = req_FirstName req,
                    LastName = req_LastName req, Age = req_Age req, Phone = req_Phone req,
                    Status = ''active'', CreatedAt = t1, UpdatedAt = t2\<rparr>
        in (Inr user,
            s\<lparr>users := AList.update (nextID s) user (users s),
              nextID := go_add (nextID s) 1\<rparr>))"

definition GetUser :: "UserService \<Rightarrow> int \<Rightarrow> store_error + User" where
  "GetUser s i = (case map_of (users s) i of None \<Rightarrow> Inl (NotFound i) | Some user \<Rightarrow> Inr user)"

definition apply_fields :: "User \<Rightarrow> UpdateUserRequest \<Rightarrow> time \<Rightarrow> User" where
  "apply_fields user req now =
     (let u1 = (case upd_Email req of None \<Rightarrow> user | Some v \<Rightarrow> user\<lparr>Email := v\<rparr>);
          u2 = (case upd_FirstName req of None \<Rightarrow> u1 | Some v \<Rightarrow> u1\<lparr>FirstName := v\<rparr>);
          u3 = (case upd_LastName req of None \<Rightarrow> u2 | Some v \<Rightarrow> u2\<lparr>LastName := v\<rparr>);
          u4 = (case upd_Age req of None \<Rightarrow> u3 | Some v \<Rightarrow> u3\<lparr>Age := v\<rparr>);
          u5 = (case upd_Phone req of None \<Rightarrow> u4 | Some v \<Rightarrow> u4\<lparr>Phone := v\<rparr>);
          u6 = (case upd_Status req of None \<Rightarrow> u5 | Some v \<Rightarrow> u5\<lparr>Status := v\<rparr>)
      in u6\<lparr>UpdatedAt := now\<rparr>)"

text \<open>
  The uniqueness scan of \<^verbatim>\<open>UpdateUser\<close>, made only when the request carries an email that
  differs from the record's; it compares the \<^verbatim>\<open>ID\<close> field of every record with \<open>i\<close>.
\<close>

definition check_email ::
  "UserService \<Rightarrow> int \<Rightarrow> User \<Rightarrow> UpdateUserRequest \<Rightarrow> store_error option" where
  "check_email s i user req =
     (case upd_Email req of
        None \<Rightarrow> None
      | Some e \<Rightarrow>
          if e \<noteq> Email user \<and>
             list_ex (\<lambda>existingUser. ID existingUser \<noteq> i \<and> Email existingUser = e)
               (map snd (users s))
          then Some (DuplicateKey e) else None)"

definition UpdateUser ::
  "UserService \<Rightarrow> int \<Rightarrow> UpdateUserRequest \<Rightarrow> time \<Rightarrow> (store_error + User) \<times> UserService" where
  "UpdateUser s i req now =
     (case map_of (users s) i of
        None \<Rightarrow> (Inl (NotFound i), s)
      | Some user \<Rightarrow>
          (case check_email s i user req of
             Some err \<Rightarrow> (Inl err, s)
           | None \<Rightarrow>
               let user' = apply_fields user req now
               in (Inr user', s\<lparr>users := AList.update i user' (users s)\<rparr>)))"

definition DeleteUser :: "UserService \<Rightarrow> int \<Rightarrow> store_error option \<times> UserService" where
  "DeleteUser s i =
     (case map_of (users s) i of
        None \<Rightarrow> (Some (NotFound i), s)
      | Some _ \<Rightarrow> (None, s\<lparr>users := AList.delete i (users s)\<rparr>))"

text \<open>
  The copying loop of \<^verbatim>\<open>ListUsers\<close>, \<^verbatim>\<open>for i := start; i < end; i++\<close>, appending
  \<^verbatim>\<open>*allUsers[i]\<close>. Inside the loop \<open>i < end\<close> and \<open>end\<close> is an \<^verbatim>\<open>int\<close>, so \<^verbatim>\<open>i++\<close>
  cannot wrap.
\<close>

function copy_users :: "User list \<Rightarrow> int \<Rightarrow> int \<Rightarrow> User list \<Rightarrow> go_panic + User list" where
  "copy_users allUsers i end' acc =
     (if i < end' then
        (if 0 \<le> i \<and> i < int (length allUsers)
         then copy_users allUsers (i + 1) end' (acc @ [allUsers ! nat i])
         else Inl OutOfRange)
      else Inr acc)"
  by pat_completeness auto
termination
  by (relation "measure (\<lambda>(allUsers, i, end', acc). nat (end' - i))") auto

declare copy_users.simps [simp del]

text \<open>
  \<^verbatim>\<open>make([]model.User, 0, end-start)\<close> panics when the capacity is negative or when
  that many elements exceed the largest allocation of the runtime (\<open>2^48\<close> bytes on
  64-bit Linux; a \<^verbatim>\<open>model.User\<close> takes 144 bytes: two \<^verbatim>\<open>int\<close>s of 8, five strings of 16
  and two \<^verbatim>\<open>time.Time\<close>s of 24). Running out of memory below that bound is not modelled.
\<close>

definition User_size :: int where
  "User_size = 144"

definition maxAlloc :: int where
  "maxAlloc = 281474976710656"

definition makeslice_panics :: "int \<Rightarrow> bool" where
  "makeslice_panics cap \<longleftrightarrow> cap < 0 \<or> cap * User_size > maxAlloc"

text \<open>\<^verbatim>\<open>ListUsers\<close> either panics or returns a response and an error.\<close>

definition ListUsers ::
  "UserService \<Rightarrow> int \<Rightarrow> int \<Rightarrow> go_panic + (UserListResponse \<times> store_error option)" where
  "ListUsers s page perPage =
     (let allUsers = map snd (users s);
          total = int (length allUsers)
      in case go_div (go_sub (go_add total perPage) 1) perPage of
           Inl p \<Rightarrow> Inl p
         | Inr totalPages \<Rightarrow>
             (let start = go_mul (go_sub page 1) perPage;
                  end0 = go_add start perPage;
                  meta = \<lparr>Page = page, PerPage = perPage, Total = total,
                          TotalPages = totalPages\<rparr>
              in if start \<ge> total then Inr (\<lparr>Users = [], Meta = meta\<rparr>, None)
                 else
                   let end1 = (if end0 > total then total else end0)
                   in if makeslice_panics (go_sub end1 start) then Inl OutOfRange
                      else (case copy_users allUsers start end1 [] of
                              Inl p \<Rightarrow> Inl p
                            | Inr paginatedUsers \<Rightarrow>
                                Inr (\<lparr>Users = paginatedUsers, Meta = meta\<rparr>, None))))"

section \<open>Validation errors (internal/model/user.go)\<close>

text \<open>
  \<^verbatim>\<open>validate.Struct\<close> belongs to the validator library. Its result is an input of
  the model: nil, a \<^verbatim>\<open>validator.ValidationErrors\<close> (a slice of field errors, each with
  the field's name, the tag of the rule that failed and the rule's parameter), or some
  other error.
\<close>

record FieldError =
  fe_Field :: string
  fe_Tag :: string
  fe_Param :: string

datatype validate_error = ValidationErrors "FieldError list" | InvalidValidationError

definition reason :: "string \<Rightarrow> string \<Rightarrow> string" where
  "reason tag param =
     (if tag = ''required'' then ''This field is required''
      else if tag = ''email'' then ''Must be a valid email address''
      else if tag = ''min'' then ''Must be at least '' @ param @ '' characters long''
      else if tag = ''max'' then ''Must be at most '' @ param @ '' characters long''
      else if tag = ''oneof'' then ''Must be one of: '' @ param
      else if tag = ''e164'' then ''Must be a valid phone number in E164 format''
      else ''Invalid value'')"

fun collect_errors :: "FieldError list \<Rightarrow> (string \<rightharpoonup> string) \<Rightarrow> (string \<rightharpoonup> string)" where
  "collect_errors [] errors = errors"
| "collect_errors (fieldError # rest) errors =
     collect_errors rest
       (errors(fe_Field fieldError \<mapsto> reason (fe_Tag fieldError) (fe_Param fieldError)))"

definition GetValidationErrors :: "validate_error \<Rightarrow> (string \<rightharpoonup> string)" where
  "GetValidationErrors err =
     (case err of
        ValidationErrors validationErrors \<Rightarrow> collect_errors validationErrors Map.empty
      | InvalidValidationError \<Rightarrow> Map.empty)"

section \<open>Handlers (internal/handler/handler.go)\<close>

text \<open>
  \<^verbatim>\<open>strconv.Atoi\<close> of the Go library: an optional sign, then one or more decimal digits,
  and a value that fits an \<^verbatim>\<open>int\<close>; anything else is an error (\<open>None\<close>).
\<close>

definition digit_val :: "char \<Rightarrow> int option" where
  "digit_val c =
     (let n = (of_char c :: int) in if 48 \<le> n \<and> n \<le> 57 then Some (n - 48) else None)"

fun parse_digits :: "string \<Rightarrow> int \<Rightarrow> int option" where
  "parse_digits [] n = Some n"
| "parse_digits (c # cs) n =
     (case digit_val c of None \<Rightarrow> None | Some d \<Rightarrow> parse_digits cs (n * 10 + d))"

definition Atoi :: "string \<Rightarrow> int option" where
  "Atoi s =
     (case s of
        [] \<Rightarrow> None
      | c # cs \<Rightarrow>
          let ds = (if c = CHR ''-'' \<or> c = CHR ''+'' then cs else s)
          in if ds = [] then None
             else (case parse_digits ds 0 of
                     None \<Rightarrow> None
                   | Some n \<Rightarrow>
                       let v = (if c = CHR ''-'' then - n else n)
                       in if MinInt \<le> v \<and> v \<le> MaxInt then Some v else None))"

text \<open>
  A response is the status and the value handed to \<^verbatim>\<open>c.JSON\<close>. The details of an
  \<^verbatim>\<open>ErrorResponse\<close>, when present, hold the map under the key \<^verbatim>\<open>validation_errors\<close>.
\<close>

record ErrorResponse =
  err_Error :: string
  err_Details :: "(string \<rightharpoonup> string) option"

datatype body =
    JSON_Error ErrorResponse
  | JSON_User User
  | JSON_List UserListResponse
  | NoContent

datatype response = Response int body

fun status_of :: "response \<Rightarrow> int" where
  "status_of (Response code b) = code"

fun body_of :: "response \<Rightarrow> body" where
  "body_of (Response code b) = b"

definition StatusOK :: int where "StatusOK = 200"
definition StatusCreated :: int where "StatusCreated = 201"
definition StatusNoContent :: int where "StatusNoContent = 204"
definition StatusBadRequest :: int where "StatusBadRequest = 400"
definition StatusNotFound :: int where "StatusNotFound = 404"
definition StatusConflict :: int where "StatusConflict = 409"
definition StatusInternalServerError :: int where "StatusInternalServerError = 500"

definition error_only :: "string \<Rightarrow> body" where
  "error_only msg = JSON_Error \<lparr>err_Error = msg, err_Details = None\<rparr>"

definition validation_failed :: "validate_error \<Rightarrow> body" where
  "validation_failed err =
     JSON_Error \<lparr>err_Error = ''Validation failed'',
                 err_Details = Some (GetValidationErrors err)\<rparr>"

text \<open>
  The handlers take what the framework gives them: the path parameter, the result of
  \<^verbatim>\<open>c.Bind\<close> (\<open>None\<close> when the body does not parse), the validator \<open>V\<close> standing for
  \<^verbatim>\<open>model.ValidateStruct\<close>, and the clock readings of the store.
\<close>

definition Handler_CreateUser ::
  "(CreateUserRequest \<Rightarrow> validate_error option) \<Rightarrow> UserService \<Rightarrow>
   CreateUserRequest option \<Rightarrow> time \<Rightarrow> time \<Rightarrow> response \<times> UserService" where
  "Handler_CreateUser V s bind t1 t2 =
     (case bind of
        None \<Rightarrow> (Response StatusBadRequest (error_only ''Invalid request payload''), s)
      | Some req \<Rightarrow>
          (case V req of
             Some err \<Rightarrow> (Response StatusBadRequest (validation_failed err), s)
           | None \<Rightarrow>
               (case CreateUser s req t1 t2 of
                  (Inl err, s') \<Rightarrow> (Response StatusConflict (error_only (Error err)), s')
                | (Inr user, s') \<Rightarrow> (Response StatusCreated (JSON_User user), s'))))"

definition Handler_GetUser :: "UserService \<Rightarrow> string \<Rightarrow> response" where
  "Handler_GetUser s idParam =
     (case Atoi idParam of
        None \<Rightarrow> Response StatusBadRequest (error_only ''Invalid user ID'')
      | Some i \<Rightarrow>
          (case GetUser s i of
             Inl err \<Rightarrow> Response StatusNotFound (error_only (Error err))
           | Inr user \<Rightarrow> Response StatusOK (JSON_User user)))"

definition Handler_UpdateUser ::
  "(UpdateUserRequest \<Rightarrow> validate_error option) \<Rightarrow> UserService \<Rightarrow> string \<Rightarrow>
   UpdateUserRequest option \<Rightarrow> time \<Rightarrow> response \<times> UserService" where
  "Handler_UpdateUser V s idParam bind now =
     (case Atoi idParam of
        None \<Rightarrow> (Response StatusBadRequest (error_only ''Invalid user ID''), s)
      | Some i \<Rightarrow>
          (case bind of
             None \<Rightarrow> (Response StatusBadRequest (error_only ''Invalid request payload''), s)
           | Some req \<Rightarrow>
               (case V req of
                  Some err \<Rightarrow> (Response StatusBadRequest (validation_failed err), s)
                | None \<Rightarrow>
                    (case UpdateUser s i req now of
                       (Inl err, s') \<Rightarrow>
                         let status =
                               (if Error err = ''user not found'' then StatusNotFound
                                else if Error err = ''email already exists'' then StatusConflict
                                else StatusInternalServerError)
                         in (Response status (error_only (Error err)), s')
                     | (Inr user, s') \<Rightarrow> (Response StatusOK (JSON_User user), s')))))"

definition Handler_DeleteUser :: "UserService \<Rightarrow> string \<Rightarrow> response \<times> UserService" where
  "Handler_DeleteUser s idParam =
     (case Atoi idParam of
        None \<Rightarrow> (Response StatusBadRequest (error_only ''Invalid user ID''), s)
      | Some i \<Rightarrow>
          (case DeleteUser s i of
             (Some err, s') \<Rightarrow> (Response StatusNotFound (error_only (Error err)), s')
           | (None, s') \<Rightarrow> (Response StatusNoContent NoContent, s')))"

text \<open>
  \<^verbatim>\<open>c.QueryParam\<close> gives the empty string for a parameter that the query does not have.
\<close>

definition QueryParam :: "(string \<times> string) list \<Rightarrow> string \<Rightarrow> string" where
  "QueryParam query name = (case map_of query name of None \<Rightarrow> [] | Some v \<Rightarrow> v)"

definition page_of :: "string \<Rightarrow> int" where
  "page_of pageParam =
     (if pageParam \<noteq> [] then
        (case Atoi pageParam of Some p \<Rightarrow> if p > 0 then p else 1 | None \<Rightarrow> 1)
      else 1)"

definition perPage_of :: "string \<Rightarrow> int" where
  "perPage_of perPageParam =
     (if perPageParam \<noteq> [] then
        (case Atoi perPageParam of
           Some pp \<Rightarrow> if pp > 0 \<and> pp \<le> 100 then pp else 10
         | None \<Rightarrow> 10)
      else 10)"

text \<open>A panic of the store leaves the handler without a response of its own.\<close>

definition Handler_ListUsers ::
  "UserService \<Rightarrow> (string \<times> string) list \<Rightarrow> go_panic + response" where
  "Handler_ListUsers s query =
     (let pageParam = QueryParam query ''page'';
          perPageParam = QueryParam query ''per_page'';
          page = page_of pageParam;
          perPage = perPage_of perPageParam
      in case ListUsers s page perPage of
           Inl p \<Rightarrow> Inl p
         | Inr (resp, Some err) \<Rightarrow>
             Inr (Response StatusInternalServerError (error_only (Error err)))
         | Inr (resp, None) \<Rightarrow> Inr (Response StatusOK (JSON_List resp)))"

section \<open>Runs of the store\<close>

text \<open>
  A run is a sequence of calls on the store, starting from \<open>NewUserService\<close>. \<open>created\<close>
  lists the records that the successful \<^verbatim>\<open>CreateUser\<close> calls of a run return, in order.
\<close>

datatype op =
    Create CreateUserRequest time time
  | Update int UpdateUserRequest time
  | Delete int

fun step :: "UserService \<Rightarrow> op \<Rightarrow> UserService" where
  "step s (Create req t1 t2) = snd (CreateUser s req t1 t2)"
| "step s (Update i req now) = snd (UpdateUser s i req now)"
| "step s (Delete i) = snd (DeleteUser s i)"

fun run :: "UserService \<Rightarrow> op list \<Rightarrow> UserService" where
  "run s [] = s"
| "run s (x # xs) = run (step s x) xs"

fun returned :: "UserService \<Rightarrow> op \<Rightarrow> User list" where
  "returned s (Create req t1 t2) =
     (case fst (CreateUser s req t1 t2) of Inl err \<Rightarrow> [] | Inr user \<Rightarrow> [user])"
| "returned s (Update i req now) = []"
| "returned s (Delete i) = []"

fun created :: "UserService \<Rightarrow> op list \<Rightarrow> User list" where
  "created s [] = []"
| "created s (x # xs) = returned s x @ created (step s x) xs"

text \<open>
  The live records of a store, and the shape every store of a run has: one entry for a
  key, stored under the record's own \<^verbatim>\<open>ID\<close>.
\<close>

definition records :: "UserService \<Rightarrow> User list" where
  "records s = map snd (users s)"

definition store_inv :: "UserService \<Rightarrow> bool" where
  "store_inv s \<longleftrightarrow>
     distinct (map fst (users s)) \<and> list_all (\<lambda>(k, user). ID user = k) (users s)"

text \<open>No two live records have the same email.\<close>

definition emails_unique :: "UserService \<Rightarrow> bool" where
  "emails_unique s \<longleftrightarrow> distinct (map Email (records s))"

subsection \<open>Sample data\<close>

definition ann :: CreateUserRequest where
  "ann = \<lparr>req_Email = ''a@x.com'', req_FirstName = ''Ann'', req_LastName = ''Lee'',
           req_Age = 30, req_Phone = []\<rparr>"

definition bob :: CreateUserRequest where
  "bob = \<lparr>req_Email = ''b@x.com'', req_FirstName = ''Bob'', req_LastName = ''Ray'',
           req_Age = 41, req_Phone = ''+1234567890''\<rparr>"

definition no_change :: UpdateUserRequest where
  "no_change = \<lparr>upd_Email = None, upd_FirstName = None, upd_LastName = None,
                 upd_Age = None, upd_Phone = None, upd_Status = None\<rparr>"

definition ann_user :: User where
  "ann_user = \<lparr>ID = 1, Email = ''a@x.com'', FirstName = ''Ann'', LastName = ''Lee'',
                Age = 30, Phone = [], Status = ''active'', CreatedAt = 100, UpdatedAt = 101\<rparr>"

definition bob_user :: User where
  "bob_user = \<lparr>ID = 2, Email = ''b@x.com'', FirstName = ''Bob'', LastName = ''Ray'',
                Age = 41, Phone = ''+1234567890'', Status = ''active'', CreatedAt = 200,
                UpdatedAt = 201\<rparr>"

definition two_violations :: "FieldError list" where
  "two_violations =
     [\<lparr>fe_Field = ''Email'', fe_Tag = ''email'', fe_Param = []\<rparr>,
      \<lparr>fe_Field = ''FirstName'', fe_Tag = ''min'', fe_Param = ''2''\<rparr>,
      \<lparr>fe_Field = ''Age'', fe_Tag = ''gte'', fe_Param = ''1''\<rparr>]"

definition one_user :: UserService where
  "one_user = snd (CreateUser NewUserService ann 100 101)"

definition two_users :: UserService where
  "two_users = snd (CreateUser one_user bob 200 201)"

section \<open>Sample stores\<close>

lemma one_user_eq: "one_user = \<lparr>users = [(1, ann_user)], nextID = 2\<rparr>"
  by (simp add: Let_def one_user_def CreateUser_def NewUserService_def ann_def ann_user_def
      go_add_def wrap64_def)

lemma two_users_eq: "two_users = \<lparr>users = [(1, ann_user), (2, bob_user)], nextID = 3\<rparr>"
  by (simp add: Let_def two_users_def one_user_eq CreateUser_def bob_def ann_user_def
      bob_user_def go_add_def wrap64_def)

section \<open>The status of a failed update\<close>

lemma Error_not_user_not_found: "Error err \<noteq> ''user not found''"
  by (cases err) simp_all

lemma Error_not_email_exists: "Error err \<noteq> ''email already exists''"
  by (cases err) simp_all

lemma Handler_UpdateUser_error_status:
  assumes "Atoi idParam = Some i" and "V req = None"
    and "UpdateUser s i req now = (Inl err, s')"
  shows "Handler_UpdateUser V s idParam (Some req) now =
           (Response StatusInternalServerError (error_only (Error err)), s')"
  using assms
  by (simp add: Handler_UpdateUser_def Error_not_user_not_found Error_not_email_exists)

text \<open>
  The other handlers do not look at the message: a failed lookup or delete answers 404
  and a failed create answers 409.
\<close>

lemma Handler_GetUser_not_found:
  "Atoi idParam = Some i \<Longrightarrow> GetUser s i = Inl err \<Longrightarrow>
   status_of (Handler_GetUser s idParam) = 404"
  by (simp add: Handler_GetUser_def StatusNotFound_def)

lemma Handler_DeleteUser_not_found:
  "Atoi idParam = Some i \<Longrightarrow> DeleteUser s i = (Some err, s') \<Longrightarrow>
   status_of (fst (Handler_DeleteUser s idParam)) = 404"
  by (simp add: Handler_DeleteUser_def StatusNotFound_def)

lemma Handler_CreateUser_conflict:
  "V req = None \<Longrightarrow> CreateUser s req t1 t2 = (Inl err, s') \<Longrightarrow>
   status_of (fst (Handler_CreateUser V s (Some req) t1 t2)) = 409"
  by (simp add: Handler_CreateUser_def StatusConflict_def)

text \<open>
  C1. A PUT whose body parses and passes validation should answer 404 when the store
  signals NotFound and 409 when it signals DuplicateKey. The handler compares the
  message of the error with \<^verbatim>\<open>"user not found"\<close> and \<^verbatim>\<open>"email already exists"\<close>,
  which are not the messages of the store, so both outcomes answer 500: updating
  user 1 of the empty store is NotFound and answers 500, and giving user 2 the email
  of user 1 is DuplicateKey and answers 500.
\<close>

theorem Handler_UpdateUser_answers_500:
  "fst (UpdateUser NewUserService 1 (no_change\<lparr>upd_Age := Some 31\<rparr>) 300) = Inl (NotFound 1) \<and>
   status_of (fst (Handler_UpdateUser (\<lambda>req. None) NewUserService ''1''
       (Some (no_change\<lparr>upd_Age := Some 31\<rparr>)) 300)) = 500 \<and>
   fst (UpdateUser two_users 2 (no_change\<lparr>upd_Email := Some ''a@x.com''\<rparr>) 300)
     = Inl (DuplicateKey ''a@x.com'') \<and>
   status_of (fst (Handler_UpdateUser (\<lambda>req. None) two_users ''2''
       (Some (no_change\<lparr>upd_Email := Some ''a@x.com''\<rparr>)) 300)) = 500"
  by (simp add: Let_def Handler_UpdateUser_def UpdateUser_def check_email_def two_users_eq
      ann_user_def bob_user_def NewUserService_def no_change_def Atoi_def digit_val_def
      MinInt_def MaxInt_def StatusInternalServerError_def StatusNotFound_def
      StatusConflict_def)

section \<open>Creating a record with a taken email\<close>

lemma list_ex_records: "list_ex P (map snd (users s)) \<longleftrightarrow> (\<exists>user\<in>set (records s). P user)"
  by (simp add: records_def list_ex_iff)

text \<open>
  C2. \<^verbatim>\<open>CreateUser\<close> fails exactly when a record of the store has the email of the
  request, compared as strings, character by character. The failure is the
  DuplicateKey condition, and it leaves the whole store as it was: no record is added
  or changed, and the counter keeps its value.
\<close>

theorem CreateUser_DuplicateKey_iff:
  "((\<exists>err. fst (CreateUser s req t1 t2) = Inl err) \<longleftrightarrow>
      (\<exists>user\<in>set (records s). Email user = req_Email req)) \<and>
   (\<forall>err. fst (CreateUser s req t1 t2) = Inl err \<longrightarrow>
      err = DuplicateKey (req_Email req) \<and> snd (CreateUser s req t1 t2) = s)"
  by (simp add: CreateUser_def Let_def list_ex_records)

text \<open>
  At the store holding Ann: creating her again fails; \<^verbatim>\<open>A@x.com\<close> is another email.
\<close>

theorem CreateUser_DuplicateKey_iff_witness:
  "(\<exists>user\<in>set (records one_user). Email user = req_Email ann) \<and>
   CreateUser one_user ann 300 301 = (Inl (DuplicateKey ''a@x.com''), one_user) \<and>
   \<not> (\<exists>user\<in>set (records one_user). Email user = ''A@x.com'') \<and>
   fst (CreateUser one_user (ann\<lparr>req_Email := ''A@x.com''\<rparr>) 300 301)
     = Inr (ann_user\<lparr>ID := 2, Email := ''A@x.com'', CreatedAt := 300, UpdatedAt := 301\<rparr>)"
  using CreateUser_DuplicateKey_iff [of one_user ann 300 301]
    CreateUser_DuplicateKey_iff [of one_user "ann\<lparr>req_Email := ''A@x.com''\<rparr>" 300 301]
  by (simp add: one_user_eq records_def ann_def ann_user_def CreateUser_def Let_def)

section \<open>Errors of an update\<close>

lemma map_of_records:
  assumes "store_inv s"
  shows "map_of (users s) i = None \<longleftrightarrow> i \<notin> ID ` set (records s)"
proof -
  have "fst ` set (users s) = ID ` set (records s)"
    using assms by (force simp: store_inv_def records_def list_all_iff)
  then show ?thesis by (simp add: map_of_eq_None_iff)
qed

lemma store_inv_two_users: "store_inv two_users"
  by (simp add: store_inv_def two_users_eq ann_user_def bob_user_def)

text \<open>
  C7. In a store of the shape \<open>store_inv\<close>, \<^verbatim>\<open>UpdateUser\<close> signals NotFound when no
  record has the identifier. When the request carries an email other than the record's,
  it signals DuplicateKey exactly when a record with another identifier has that email,
  it fails in no other way, and the failure leaves the store and the record as they
  were. When the request carries the record's own email, the update succeeds.
\<close>

theorem UpdateUser_errors:
  assumes "store_inv s"
  shows "(i \<notin> ID ` set (records s) \<longrightarrow> UpdateUser s i req now = (Inl (NotFound i), s)) \<and>
   (\<forall>user e. map_of (users s) i = Some user \<and> upd_Email req = Some e \<and> e \<noteq> Email user \<longrightarrow>
      ((fst (UpdateUser s i req now) = Inl (DuplicateKey e)) \<longleftrightarrow>
         (\<exists>other\<in>set (records s). ID other \<noteq> i \<and> Email other = e)) \<and>
      ((\<exists>err. fst (UpdateUser s i req now) = Inl err) \<longleftrightarrow>
         (\<exists>other\<in>set (records s). ID other \<noteq> i \<and> Email other = e)) \<and>
      ((\<exists>err. fst (UpdateUser s i req now) = Inl err) \<longrightarrow>
         snd (UpdateUser s i req now) = s \<and> map_of (users s) i = Some user)) \<and>
   (\<forall>user. map_of (users s) i = Some user \<and> upd_Email req = Some (Email user) \<longrightarrow>
      fst (UpdateUser s i req now) = Inr (apply_fields user req now) \<and>
      Email (apply_fields user req now) = Email user)"
  using map_of_records [OF assms, of i]
  by (auto simp: UpdateUser_def check_email_def Let_def list_ex_records apply_fields_def
      split: option.splits)

text \<open>
  At the store holding Ann and Bob: no user 7; Bob cannot take Ann's email, can take a
  new one, and can keep his.
\<close>

theorem UpdateUser_errors_witness:
  "store_inv two_users \<and>
   UpdateUser two_users 7 (no_change\<lparr>upd_Email := Some ''a@x.com''\<rparr>) 300
     = (Inl (NotFound 7), two_users) \<and>
   UpdateUser two_users 2 (no_change\<lparr>upd_Email := Some ''a@x.com''\<rparr>) 300
     = (Inl (DuplicateKey ''a@x.com''), two_users) \<and>
   fst (UpdateUser two_users 2 (no_change\<lparr>upd_Email := Some ''c@x.com''\<rparr>) 300)
     = Inr (bob_user\<lparr>Email := ''c@x.com'', UpdatedAt := 300\<rparr>) \<and>
   fst (UpdateUser two_users 2 (no_change\<lparr>upd_Email := Some ''b@x.com''\<rparr>) 300)
     = Inr (bob_user\<lparr>UpdatedAt := 300\<rparr>)"
  using UpdateUser_errors [OF store_inv_two_users, of 7 "no_change\<lparr>upd_Email := Some ''a@x.com''\<rparr>" 300]
    UpdateUser_errors [OF store_inv_two_users, of 2 "no_change\<lparr>upd_Email := Some ''a@x.com''\<rparr>" 300]
    UpdateUser_errors [OF store_inv_two_users, of 2 "no_change\<lparr>upd_Email := Some ''c@x.com''\<rparr>" 300]
    UpdateUser_errors [OF store_inv_two_users, of 2 "no_change\<lparr>upd_Email := Some ''b@x.com''\<rparr>" 300]
  by (simp add: store_inv_def two_users_eq records_def ann_user_def bob_user_def
      no_change_def UpdateUser_def check_email_def apply_fields_def Let_def)

section \<open>The frame of an update\<close>

text \<open>
  C6. A successful \<^verbatim>\<open>UpdateUser\<close> gives every field that the request carries the
  request's value and keeps every other field, the identifier and \<^verbatim>\<open>CreatedAt\<close>.
  \<^verbatim>\<open>UpdatedAt\<close> becomes the clock reading of the call, which is later than the old
  value whenever the clock has moved on since. The record is stored under its key, and
  no other entry, no key and not the counter changes.
\<close>

theorem UpdateUser_frame:
  assumes "map_of (users s) i = Some user"
    and "UpdateUser s i req now = (Inr user', s')"
  shows "Email user' = (case upd_Email req of None \<Rightarrow> Email user | Some v \<Rightarrow> v) \<and>
    FirstName user' = (case upd_FirstName req of None \<Rightarrow> FirstName user | Some v \<Rightarrow> v) \<and>
    LastName user' = (case upd_LastName req of None \<Rightarrow> LastName user | Some v \<Rightarrow> v) \<and>
    Age user' = (case upd_Age req of None \<Rightarrow> Age user | Some v \<Rightarrow> v) \<and>
    Phone user' = (case upd_Phone req of None \<Rightarrow> Phone user | Some v \<Rightarrow> v) \<and>
    Status user' = (case upd_Status req of None \<Rightarrow> Status user | Some v \<Rightarrow> v) \<and>
    ID user' = ID user \<and> CreatedAt user' = CreatedAt user \<and> UpdatedAt user' = now \<and>
    (UpdatedAt user < now \<longrightarrow> UpdatedAt user < UpdatedAt user') \<and>
    map_of (users s') i = Some user' \<and>
    (\<forall>k. k \<noteq> i \<longrightarrow> map_of (users s') k = map_of (users s) k) \<and>
    map fst (users s') = map fst (users s) \<and>
    nextID s' = nextID s"
proof -
  have u: "user' = apply_fields user req now"
    and s': "s' = s\<lparr>users := AList.update i user' (users s)\<rparr>"
    using assms by (auto simp: UpdateUser_def Let_def split: option.splits)
  have k: "i \<in> fst ` set (users s)"
    using assms(1) by (metis domI dom_map_of_conv_image_fst)
  have fields: "Email user' = (case upd_Email req of None \<Rightarrow> Email user | Some v \<Rightarrow> v) \<and>
    FirstName user' = (case upd_FirstName req of None \<Rightarrow> FirstName user | Some v \<Rightarrow> v) \<and>
    LastName user' = (case upd_LastName req of None \<Rightarrow> LastName user | Some v \<Rightarrow> v) \<and>
    Age user' = (case upd_Age req of None \<Rightarrow> Age user | Some v \<Rightarrow> v) \<and>
    Phone user' = (case upd_Phone req of None \<Rightarrow> Phone user | Some v \<Rightarrow> v) \<and>
    Status user' = (case upd_Status req of None \<Rightarrow> Status user | Some v \<Rightarrow> v) \<and>
    ID user' = ID user \<and> CreatedAt user' = CreatedAt user \<and> UpdatedAt user' = now"
    unfolding u by (simp add: apply_fields_def Let_def split: option.splits)
  have store: "map_of (users s') i = Some user' \<and>
    (\<forall>k. k \<noteq> i \<longrightarrow> map_of (users s') k = map_of (users s) k) \<and>
    map fst (users s') = map fst (users s) \<and> nextID s' = nextID s"
    using k unfolding s' by (simp add: update_conv' update_keys)
  from fields store show ?thesis by simp
qed

text \<open>Bob's age becomes 42 at time 300; Ann's entry stays.\<close>

theorem UpdateUser_frame_witness:
  "map_of (users two_users) 2 = Some bob_user \<and>
   UpdateUser two_users 2 (no_change\<lparr>upd_Age := Some 42\<rparr>) 300
     = (Inr (bob_user\<lparr>Age := 42, UpdatedAt := 300\<rparr>),
        \<lparr>users = [(1, ann_user), (2, bob_user\<lparr>Age := 42, UpdatedAt := 300\<rparr>)], nextID = 3\<rparr>) \<and>
   UpdatedAt bob_user < UpdatedAt (bob_user\<lparr>Age := 42, UpdatedAt := 300\<rparr>)"
proof -
  have a: "map_of (users two_users) 2 = Some bob_user"
    by (simp add: two_users_eq)
  have b: "UpdateUser two_users 2 (no_change\<lparr>upd_Age := Some 42\<rparr>) 300
     = (Inr (bob_user\<lparr>Age := 42, UpdatedAt := 300\<rparr>),
        \<lparr>users = [(1, ann_user), (2, bob_user\<lparr>Age := 42, UpdatedAt := 300\<rparr>)], nextID = 3\<rparr>)"
    by (simp add: two_users_eq UpdateUser_def check_email_def apply_fields_def Let_def
        no_change_def)
  from UpdateUser_frame [OF a b] a b show ?thesis
    by (simp add: bob_user_def)
qed

text \<open>
  As the claim has it, \<^verbatim>\<open>UpdatedAt\<close> always grows. An update of Ann in the clock tick
  of her creation leaves \<^verbatim>\<open>UpdatedAt\<close> at 101.
\<close>

theorem UpdateUser_same_tick_counterexample:
  "map_of (users one_user) 1 = Some ann_user \<and>
   fst (UpdateUser one_user 1 (no_change\<lparr>upd_Age := Some 31\<rparr>) 101)
     = Inr (ann_user\<lparr>Age := 31\<rparr>) \<and>
   \<not> UpdatedAt ann_user < UpdatedAt (ann_user\<lparr>Age := 31\<rparr>)"
  by (simp add: one_user_eq UpdateUser_def check_email_def apply_fields_def Let_def
      no_change_def ann_user_def)

section \<open>Unique emails\<close>

lemma set_update_subset: "set (AList.update k v al) \<subseteq> insert (k, v) (set al)"
  by (induction al) auto

lemma distinct_emails_update:
  assumes "distinct (map fst al)" and "distinct (map (Email \<circ> snd) al)"
    and "\<forall>(k', user)\<in>set al. k' \<noteq> k \<longrightarrow> Email user \<noteq> Email v"
  shows "distinct (map (Email \<circ> snd) (AList.update k v al))"
  using assms
proof (induction al)
  case Nil
  then show ?case by simp
next
  case (Cons p al)
  obtain k' u where p: "p = (k', u)" by (cases p)
  show ?case
  proof (cases "k' = k")
    case True
    with Cons.prems p show ?thesis by (force simp: image_iff)
  next
    case False
    have "Email u \<notin> (Email \<circ> snd) ` set (AList.update k v al)"
    proof
      assume "Email u \<in> (Email \<circ> snd) ` set (AList.update k v al)"
      then obtain q where q: "q \<in> set (AList.update k v al)" "Email u = Email (snd q)"
        by auto
      with set_update_subset [of k v al] have "q = (k, v) \<or> q \<in> set al" by auto
      with q Cons.prems p False show False by (auto simp: image_iff)
    qed
    with Cons p False show ?thesis by auto
  qed
qed

lemma list_all_update:
  "list_all P al \<Longrightarrow> P (k, v) \<Longrightarrow> list_all P (AList.update k v al)"
  by (induction al) auto

lemma list_all_delete: "list_all P al \<Longrightarrow> list_all P (AList.delete k al)"
  by (induction al) auto

lemma distinct_emails_delete:
  "distinct (map (Email \<circ> snd) al) \<Longrightarrow> distinct (map (Email \<circ> snd) (AList.delete k al))"
  by (simp add: AList.delete_eq distinct_map_filter)

lemma emails_unique_alt: "emails_unique s \<longleftrightarrow> distinct (map (Email \<circ> snd) (users s))"
  by (simp add: emails_unique_def records_def)

lemma unique_email_entry:
  assumes "distinct (map (Email \<circ> snd) al)" and "(k', u) \<in> set al" and "(i, user) \<in> set al"
    and "Email u = Email user"
  shows "k' = i"
proof -
  from assms(1) have "inj_on (Email \<circ> snd) (set al)" by (simp add: distinct_map)
  from inj_onD [OF this, of "(k', u)" "(i, user)"] assms(2-4) show ?thesis by simp
qed

lemma CreateUser_inv:
  assumes "store_inv s \<and> emails_unique s"
  shows "store_inv (snd (CreateUser s req t1 t2)) \<and> emails_unique (snd (CreateUser s req t1 t2))"
proof (cases "list_ex (\<lambda>user. Email user = req_Email req) (map snd (users s))")
  case True
  with assms show ?thesis by (simp add: CreateUser_def)
next
  case False
  then have fresh: "\<forall>(k', user)\<in>set (users s). Email user \<noteq> req_Email req"
    by (auto simp: list_ex_iff)
  with assms False show ?thesis
    by (auto simp: CreateUser_def Let_def store_inv_def emails_unique_alt distinct_update
        intro!: list_all_update distinct_emails_update)
qed

lemma DeleteUser_inv:
  assumes "store_inv s \<and> emails_unique s"
  shows "store_inv (snd (DeleteUser s i)) \<and> emails_unique (snd (DeleteUser s i))"
  using assms
  by (auto simp: DeleteUser_def store_inv_def emails_unique_alt distinct_delete
      intro!: list_all_delete distinct_emails_delete split: option.splits)

lemma Email_apply_fields:
  "Email (apply_fields user req now) = (case upd_Email req of None \<Rightarrow> Email user | Some e \<Rightarrow> e)"
  by (simp add: apply_fields_def Let_def split: option.splits)

lemma ID_apply_fields: "ID (apply_fields user req now) = ID user"
  by (simp add: apply_fields_def Let_def split: option.splits)

lemma UpdateUser_inv:
  assumes "store_inv s \<and> emails_unique s"
  shows "store_inv (snd (UpdateUser s i req now)) \<and> emails_unique (snd (UpdateUser s i req now))"
proof (cases "map_of (users s) i")
  case None
  with assms show ?thesis by (simp add: UpdateUser_def)
next
  case (Some user)
  show ?thesis
  proof (cases "check_email s i user req")
    case (Some err)
    with \<open>map_of (users s) i = Some user\<close> assms show ?thesis by (simp add: UpdateUser_def)
  next
    case None
    let ?u = "apply_fields user req now"
    have mem: "(i, user) \<in> set (users s)"
      using \<open>map_of (users s) i = Some user\<close> by (rule map_of_SomeD)
    have keys: "\<forall>(k', u)\<in>set (users s). ID u = k'"
      using assms by (auto simp: store_inv_def list_all_iff)
    have uniq: "distinct (map (Email \<circ> snd) (users s))"
      using assms by (simp add: emails_unique_alt)
    have same: "\<forall>(k', u)\<in>set (users s). k' \<noteq> i \<longrightarrow> Email u \<noteq> Email user"
      using unique_email_entry [OF uniq _ mem] by blast
    have others: "\<forall>(k', u)\<in>set (users s). k' \<noteq> i \<longrightarrow> Email u \<noteq> Email ?u"
    proof (cases "upd_Email req")
      case None
      with same show ?thesis by (simp add: Email_apply_fields)
    next
      case (Some e)
      show ?thesis
      proof (cases "e = Email user")
        case True
        with Some same show ?thesis by (simp add: Email_apply_fields)
      next
        case False
        with Some \<open>check_email s i user req = None\<close>
        have "\<not> list_ex (\<lambda>x. ID x \<noteq> i \<and> Email x = e) (map snd (users s))"
          by (simp add: check_email_def split: if_splits)
        with keys Some show ?thesis
          by (fastforce simp: list_ex_iff Email_apply_fields)
      qed
    qed
    have "ID ?u = i" using keys mem by (auto simp: ID_apply_fields)
    with assms others None \<open>map_of (users s) i = Some user\<close> show ?thesis
      by (auto simp: UpdateUser_def Let_def store_inv_def emails_unique_alt distinct_update
          intro!: list_all_update distinct_emails_update)
  qed
qed

lemma step_inv:
  "store_inv s \<and> emails_unique s \<Longrightarrow> store_inv (step s x) \<and> emails_unique (step s x)"
  by (cases x) (simp_all only: step.simps CreateUser_inv UpdateUser_inv DeleteUser_inv)

lemma run_inv:
  "store_inv s \<and> emails_unique s \<Longrightarrow> store_inv (run s xs) \<and> emails_unique (run s xs)"
  by (induction xs arbitrary: s) (simp_all add: step_inv)

lemma store_inv_run: "store_inv (run NewUserService xs)"
  using run_inv [of NewUserService xs]
  by (simp add: store_inv_def emails_unique_def records_def NewUserService_def)

text \<open>
  C5. After any sequence of \<^verbatim>\<open>CreateUser\<close>, \<^verbatim>\<open>UpdateUser\<close> and \<^verbatim>\<open>DeleteUser\<close> calls on
  a new store, with any payloads (so also with those that pass validation), no two
  live records have the same email.
\<close>

theorem emails_unique_run: "emails_unique (run NewUserService xs)"
  using run_inv [of NewUserService xs]
  by (simp add: store_inv_def emails_unique_def records_def NewUserService_def)

section \<open>Identifiers and stamps of created records\<close>

lemma wrap64_id: "MinInt \<le> x \<Longrightarrow> x \<le> MaxInt \<Longrightarrow> wrap64 x = x"
  by (simp add: wrap64_def MinInt_def MaxInt_def)

lemma CreateUser_Inr:
  assumes "CreateUser s req t1 t2 = (Inr user, s')"
  shows "user = \<lparr>ID = nextID s, Email = req_Email req, FirstName = req_FirstName req,
                  LastName = req_LastName req, Age = req_Age req, Phone = req_Phone req,
                  Status = ''active'', CreatedAt = t1, UpdatedAt = t2\<rparr>"
    and "s' = s\<lparr>users := AList.update (nextID s) user (users s), nextID := go_add (nextID s) 1\<rparr>"
  using assms by (auto simp: CreateUser_def Let_def split: if_splits)

lemma nextID_UpdateUser: "nextID (snd (UpdateUser s i req now)) = nextID s"
  by (simp add: UpdateUser_def Let_def split: option.splits)

lemma nextID_DeleteUser: "nextID (snd (DeleteUser s i)) = nextID s"
  by (simp add: DeleteUser_def split: option.splits)

lemma nextID_CreateUser:
  "nextID (snd (CreateUser s req t1 t2)) =
     (case fst (CreateUser s req t1 t2) of Inl err \<Rightarrow> nextID s | Inr user \<Rightarrow> go_add (nextID s) 1)"
  by (simp add: CreateUser_def Let_def)

lemma ID_CreateUser: "fst (CreateUser s req t1 t2) = Inr user \<Longrightarrow> ID user = nextID s"
  by (auto simp: CreateUser_def Let_def split: if_splits)

lemma created_increasing:
  assumes "MinInt \<le> nextID s" and "nextID s + int (length xs) \<le> MaxInt"
  shows "sorted_wrt (<) (map ID (created s xs)) \<and>
         (\<forall>user\<in>set (created s xs). nextID s \<le> ID user) \<and>
         nextID s \<le> nextID (run s xs)"
  using assms
proof (induction xs arbitrary: s)
  case Nil
  then show ?case by simp
next
  case (Cons x xs)
  have step: "nextID (step s x) = nextID s \<and> returned s x = [] \<or>
              nextID (step s x) = nextID s + 1 \<and> (\<exists>user. returned s x = [user] \<and> ID user = nextID s)"
  proof (cases x)
    case (Create req t1 t2)
    show ?thesis
    proof (cases "fst (CreateUser s req t1 t2)")
      case (Inl err)
      with Create show ?thesis by (simp add: nextID_CreateUser)
    next
      case (Inr user)
      moreover have "go_add (nextID s) 1 = nextID s + 1"
        using Cons.prems by (simp add: go_add_def wrap64_id)
      ultimately show ?thesis using Create by (simp add: nextID_CreateUser ID_CreateUser)
    qed
  next
    case (Update i req now)
    then show ?thesis by (simp add: nextID_UpdateUser)
  next
    case (Delete i)
    then show ?thesis by (simp add: nextID_DeleteUser)
  qed
  then have "MinInt \<le> nextID (step s x)" "nextID (step s x) + int (length xs) \<le> MaxInt"
    using Cons.prems by auto
  from Cons.IH [OF this]
  have IH: "sorted_wrt (<) (map ID (created (step s x) xs))"
    "\<forall>user\<in>set (created (step s x) xs). nextID (step s x) \<le> ID user"
    "nextID (step s x) \<le> nextID (run (step s x) xs)"
    by auto
  from step IH show ?case by (auto simp: sorted_wrt_append)
qed

text \<open>
  C3. A successful \<^verbatim>\<open>CreateUser\<close> returns a record whose identifier is the counter, with
  status \<^verbatim>\<open>active\<close>, the fields of the payload, \<^verbatim>\<open>CreatedAt\<close> the first clock reading
  of the call and \<^verbatim>\<open>UpdatedAt\<close> the second, and stores it under its identifier. The
  counter starts at 1, a successful create adds 1 to it while it is below the largest
  \<^verbatim>\<open>int\<close>, and a failed create, an update and a delete leave it alone. So in a run of
  fewer than \<open>MaxInt\<close> calls the identifiers returned grow strictly, and none is
  returned twice.
\<close>

theorem CreateUser_success:
  "(\<forall>user s'. CreateUser s req t1 t2 = (Inr user, s') \<longrightarrow>
      ID user = nextID s \<and> Status user = ''active'' \<and>
      CreatedAt user = t1 \<and> UpdatedAt user = t2 \<and>
      Email user = req_Email req \<and> FirstName user = req_FirstName req \<and>
      LastName user = req_LastName req \<and> Age user = req_Age req \<and>
      Phone user = req_Phone req \<and>
      map_of (users s') (ID user) = Some user \<and>
      nextID s' = go_add (nextID s) 1 \<and>
      (MinInt \<le> nextID s \<and> nextID s < MaxInt \<longrightarrow> nextID s' = nextID s + 1)) \<and>
   (\<forall>err. fst (CreateUser s req t1 t2) = Inl err \<longrightarrow>
      nextID (snd (CreateUser s req t1 t2)) = nextID s) \<and>
   nextID (snd (UpdateUser s i upd now)) = nextID s \<and>
   nextID (snd (DeleteUser s i)) = nextID s \<and>
   nextID NewUserService = 1 \<and>
   (int (length xs) < MaxInt \<longrightarrow>
      sorted_wrt (<) (map ID (created NewUserService xs)) \<and>
      distinct (map ID (created NewUserService xs)))"
proof -
  have a: "\<forall>user s'. CreateUser s req t1 t2 = (Inr user, s') \<longrightarrow>
      ID user = nextID s \<and> Status user = ''active'' \<and>
      CreatedAt user = t1 \<and> UpdatedAt user = t2 \<and>
      Email user = req_Email req \<and> FirstName user = req_FirstName req \<and>
      LastName user = req_LastName req \<and> Age user = req_Age req \<and>
      Phone user = req_Phone req \<and>
      map_of (users s') (ID user) = Some user \<and>
      nextID s' = go_add (nextID s) 1 \<and>
      (MinInt \<le> nextID s \<and> nextID s < MaxInt \<longrightarrow> nextID s' = nextID s + 1)"
  proof (intro allI impI)
    fix user s' assume c: "CreateUser s req t1 t2 = (Inr user, s')"
    note u = CreateUser_Inr(1) [OF c] and s' = CreateUser_Inr(2) [OF c]
    have "ID user = nextID s" by (simp add: u)
    moreover have "map_of (users s') (ID user) = Some user"
      unfolding s' by (simp add: update_conv' \<open>ID user = nextID s\<close>)
    moreover have "nextID s' = go_add (nextID s) 1" by (simp add: s')
    moreover have "MinInt \<le> nextID s \<and> nextID s < MaxInt \<longrightarrow> nextID s' = nextID s + 1"
      by (simp add: s' go_add_def wrap64_id)
    ultimately show "ID user = nextID s \<and> Status user = ''active'' \<and>
      CreatedAt user = t1 \<and> UpdatedAt user = t2 \<and>
      Email user = req_Email req \<and> FirstName user = req_FirstName req \<and>
      LastName user = req_LastName req \<and> Age user = req_Age req \<and>
      Phone user = req_Phone req \<and>
      map_of (users s') (ID user) = Some user \<and>
      nextID s' = go_add (nextID s) 1 \<and>
      (MinInt \<le> nextID s \<and> nextID s < MaxInt \<longrightarrow> nextID s' = nextID s + 1)"
      by (simp add: u)
  qed
  have b: "\<forall>err. fst (CreateUser s req t1 t2) = Inl err \<longrightarrow>
      nextID (snd (CreateUser s req t1 t2)) = nextID s"
    by (simp add: nextID_CreateUser)
  have c: "int (length xs) < MaxInt \<longrightarrow>
      sorted_wrt (<) (map ID (created NewUserService xs)) \<and>
      distinct (map ID (created NewUserService xs))"
  proof
    assume "int (length xs) < MaxInt"
    then have "sorted_wrt (<) (map ID (created NewUserService xs))"
      using created_increasing [of NewUserService xs]
      by (simp add: NewUserService_def MinInt_def)
    then show "sorted_wrt (<) (map ID (created NewUserService xs)) \<and>
      distinct (map ID (created NewUserService xs))"
      by (simp add: strict_sorted_iff)
  qed
  from a b c show ?thesis
    by (simp only: nextID_UpdateUser nextID_DeleteUser NewUserService_def
        UserService.simps simp_thms)
qed

text \<open>Ann gets identifier 1; after her deletion the next record gets 2.\<close>

theorem CreateUser_success_witness:
  "CreateUser NewUserService ann 100 101 = (Inr ann_user, one_user) \<and>
   ID ann_user = nextID NewUserService \<and> nextID one_user = 2 \<and>
   map_of (users one_user) 1 = Some ann_user \<and>
   int (length [Create ann 100 101, Delete 1, Create ann 200 201]) < MaxInt \<and>
   map ID (created NewUserService [Create ann 100 101, Delete 1, Create ann 200 201]) = [1, 2]"
proof -
  have c: "CreateUser NewUserService ann 100 101 = (Inr ann_user, one_user)"
    by (simp add: one_user_def CreateUser_def Let_def NewUserService_def ann_def ann_user_def)
  have l: "int (length [Create ann 100 101, Delete 1, Create ann 200 201]) < MaxInt"
    by (simp add: MaxInt_def)
  have r: "map ID (created NewUserService [Create ann 100 101, Delete 1, Create ann 200 201]) = [1, 2]"
    by (simp add: CreateUser_def DeleteUser_def Let_def NewUserService_def ann_def
        go_add_def wrap64_def)
  from CreateUser_success [of NewUserService ann 100 101 1 no_change 0
      "[Create ann 100 101, Delete 1, Create ann 200 201]"] c l r
  show ?thesis by (simp add: one_user_eq NewUserService_def ann_user_def)
qed

text \<open>
  As the claim has it, \<^verbatim>\<open>CreatedAt\<close> and \<^verbatim>\<open>UpdatedAt\<close> are equal and the counter never
  decreases. The two clock readings of one call may differ, and at the largest \<^verbatim>\<open>int\<close>
  the increment wraps to the smallest.
\<close>

theorem CreateUser_clock_counterexample:
  "fst (CreateUser NewUserService ann 100 101) = Inr ann_user \<and>
   CreatedAt ann_user \<noteq> UpdatedAt ann_user \<and>
   nextID (snd (CreateUser \<lparr>users = [], nextID = MaxInt\<rparr> ann 100 101)) = MinInt"
  by (simp add: CreateUser_def Let_def NewUserService_def ann_def ann_user_def
      go_add_def wrap64_def MaxInt_def MinInt_def)

section \<open>Validation failures\<close>

lemma collect_errors_dom: "dom (collect_errors fes m) = dom m \<union> fe_Field ` set fes"
  by (induction fes arbitrary: m) auto

lemma collect_errors_other:
  "f \<notin> fe_Field ` set fes \<Longrightarrow> collect_errors fes m f = m f"
  by (induction fes arbitrary: m) auto

lemma collect_errors_distinct:
  "distinct (map fe_Field fes) \<Longrightarrow> fe \<in> set fes \<Longrightarrow>
   collect_errors fes m (fe_Field fe) = Some (reason (fe_Tag fe) (fe_Param fe))"
proof (induction fes arbitrary: m)
  case Nil
  then show ?case by simp
next
  case (Cons a fes)
  show ?case
  proof (cases "fe = a")
    case True
    with Cons.prems show ?thesis by (simp add: collect_errors_other)
  next
    case False
    with Cons show ?thesis by auto
  qed
qed

text \<open>
  C9. Every field that the validator reports is a key of the map that
  \<^verbatim>\<open>GetValidationErrors\<close> builds, so all violating fields are reported together; with
  one error for a field, as the validator reports them, the reason of the field is the
  one of the rule that failed. The rules \<^verbatim>\<open>required\<close>, \<^verbatim>\<open>email\<close>, \<^verbatim>\<open>min\<close>, \<^verbatim>\<open>max\<close>,
  \<^verbatim>\<open>oneof\<close> and \<^verbatim>\<open>e164\<close> have a message of their own, every other rule has
  \<^verbatim>\<open>Invalid value\<close>, and the create handler answers 400 with that map, leaving the store
  as it was.
\<close>

theorem GetValidationErrors_all_fields:
  "dom (GetValidationErrors (ValidationErrors fes)) = fe_Field ` set fes \<and>
   (distinct (map fe_Field fes) \<longrightarrow>
      (\<forall>fe\<in>set fes. GetValidationErrors (ValidationErrors fes) (fe_Field fe)
                        = Some (reason (fe_Tag fe) (fe_Param fe)))) \<and>
   reason ''required'' param = ''This field is required'' \<and>
   reason ''email'' param = ''Must be a valid email address'' \<and>
   reason ''min'' param = ''Must be at least '' @ param @ '' characters long'' \<and>
   reason ''max'' param = ''Must be at most '' @ param @ '' characters long'' \<and>
   reason ''oneof'' param = ''Must be one of: '' @ param \<and>
   reason ''e164'' param = ''Must be a valid phone number in E164 format'' \<and>
   (tag \<notin> {''required'', ''email'', ''min'', ''max'', ''oneof'', ''e164''} \<longrightarrow>
      reason tag param = ''Invalid value'') \<and>
   (V req = Some err \<longrightarrow>
      Handler_CreateUser V s (Some req) t1 t2
        = (Response 400 (JSON_Error \<lparr>err_Error = ''Validation failed'',
                                     err_Details = Some (GetValidationErrors err)\<rparr>), s))"
proof -
  have a: "dom (GetValidationErrors (ValidationErrors fes)) = fe_Field ` set fes"
    by (simp add: GetValidationErrors_def collect_errors_dom)
  have b: "distinct (map fe_Field fes) \<longrightarrow>
      (\<forall>fe\<in>set fes. GetValidationErrors (ValidationErrors fes) (fe_Field fe)
                        = Some (reason (fe_Tag fe) (fe_Param fe)))"
    by (simp add: GetValidationErrors_def collect_errors_distinct)
  have c: "reason ''required'' param = ''This field is required'' \<and>
   reason ''email'' param = ''Must be a valid email address'' \<and>
   reason ''min'' param = ''Must be at least '' @ param @ '' characters long'' \<and>
   reason ''max'' param = ''Must be at most '' @ param @ '' characters long'' \<and>
   reason ''oneof'' param = ''Must be one of: '' @ param \<and>
   reason ''e164'' param = ''Must be a valid phone number in E164 format''"
    by (simp add: reason_def)
  have d: "tag \<notin> {''required'', ''email'', ''min'', ''max'', ''oneof'', ''e164''} \<longrightarrow>
      reason tag param = ''Invalid value''"
    by (simp add: reason_def)
  have e: "V req = Some err \<longrightarrow>
      Handler_CreateUser V s (Some req) t1 t2
        = (Response 400 (JSON_Error \<lparr>err_Error = ''Validation failed'',
                                     err_Details = Some (GetValidationErrors err)\<rparr>), s)"
    by (simp add: Handler_CreateUser_def validation_failed_def StatusBadRequest_def)
  from a b c d e show ?thesis by blast
qed

text \<open>
  Three violations, the third by a rule outside the six: three reasons in one answer.
\<close>

theorem GetValidationErrors_all_fields_witness:
  "distinct (map fe_Field two_violations) \<and>
   dom (GetValidationErrors (ValidationErrors two_violations)) = {''Email'', ''FirstName'', ''Age''} \<and>
   GetValidationErrors (ValidationErrors two_violations) ''Email''
     = Some ''Must be a valid email address'' \<and>
   GetValidationErrors (ValidationErrors two_violations) ''FirstName''
     = Some ''Must be at least 2 characters long'' \<and>
   GetValidationErrors (ValidationErrors two_violations) ''Age'' = Some ''Invalid value'' \<and>
   ''gte'' \<notin> {''required'', ''email'', ''min'', ''max'', ''oneof'', ''e164''} \<and>
   status_of (fst (Handler_CreateUser (\<lambda>req. Some (ValidationErrors two_violations))
                     NewUserService (Some (ann\<lparr>req_Email := ''a'', req_FirstName := ''A'', req_Age := 0\<rparr>)) 100 101)) = 400"
  using GetValidationErrors_all_fields [of two_violations "[]" "''gte''"
      "\<lambda>req. Some (ValidationErrors two_violations)"
      "ann\<lparr>req_Email := ''a'', req_FirstName := ''A'', req_Age := 0\<rparr>"
      "ValidationErrors two_violations" NewUserService 100 101]
  by (simp add: two_violations_def GetValidationErrors_def reason_def)

section \<open>Listing within the range of \<^verbatim>\<open>int\<close>\<close>

lemma copy_users_in_range:
  "0 \<le> i \<Longrightarrow> e \<le> int (length allUsers) \<Longrightarrow>
   copy_users allUsers i e acc = Inr (acc @ take (nat (e - i)) (drop (nat i) allUsers))"
proof (induction allUsers i e acc rule: copy_users.induct)
  case (1 allUsers i e acc)
  show ?case
  proof (cases "i < e")
    case False
    then show ?thesis by (simp add: copy_users.simps)
  next
    case True
    with "1.prems" have r: "0 \<le> i \<and> i < int (length allUsers)" by simp
    then have l: "nat i < length allUsers" by linarith
    have n: "nat (e - i) = Suc (nat (e - (i + 1)))" using True by simp
    have s: "nat (i + 1) = Suc (nat i)" using r by linarith
    have d: "drop (nat i) allUsers = allUsers ! nat i # drop (nat (i + 1)) allUsers"
      unfolding s using Cons_nth_drop_Suc [OF l] by simp
    from "1.IH" [OF True r] "1.prems" r
    have "copy_users allUsers (i + 1) e (acc @ [allUsers ! nat i]) =
          Inr ((acc @ [allUsers ! nat i]) @ take (nat (e - (i + 1))) (drop (nat (i + 1)) allUsers))"
      by simp
    with True r show ?thesis
      by (subst copy_users.simps) (simp add: n d)
  qed
qed

lemma go_div_nonneg:
  assumes "0 \<le> a" and "a \<le> MaxInt" and "0 < b"
  shows "go_div a b = Inr (a div b)"
proof -
  have e: "sgn a * sgn b * (\<bar>a\<bar> div \<bar>b\<bar>) = a div b"
    using assms by (cases "a = 0") (simp_all add: sgn_if)
  have "0 \<le> a div b" using assms by (simp add: pos_imp_zdiv_nonneg_iff)
  moreover have "a div b \<le> a"
    using assms by (metis div_by_1 int_one_le_iff_zero_less zdiv_mono2 zero_less_one)
  ultimately have w: "wrap64 (a div b) = a div b"
    using assms(2) by (intro wrap64_id) (simp_all add: MinInt_def)
  show ?thesis
    unfolding go_div_def e w using assms(3) by simp
qed

text \<open>
  The total pages \<open>(N + p - 1) div p\<close> are the ceiling of \<open>N / p\<close>: the least number of
  pages of \<open>p\<close> records that hold \<open>N\<close> records.
\<close>

lemma total_pages_ceiling:
  fixes N p :: int
  assumes "0 < p"
  shows "N \<le> ((N + p - 1) div p) * p \<and> ((N + p - 1) div p - 1) * p < N"
proof -
  let ?q = "(N + p - 1) div p"
  let ?r = "(N + p - 1) mod p"
  have e: "?q * p = N + p - 1 - ?r"
    using div_mult_mod_eq [of "N + p - 1" p] by linarith
  have r: "0 \<le> ?r" "?r < p"
    using assms by simp_all
  have "(?q - 1) * p = ?q * p - p" by (simp add: algebra_simps)
  with e r show ?thesis by linarith
qed

text \<open>
  Within the range of \<^verbatim>\<open>int\<close>, \<^verbatim>\<open>ListUsers\<close> returns the records at the positions from
  \<open>(page - 1) * perPage\<close> up to \<open>min (page * perPage) N\<close>, none when the offset is beyond
  \<open>N\<close>, with the count and the pages.
\<close>

lemma ListUsers_in_range:
  assumes "1 \<le> page" and "1 \<le> perPage" and "page * perPage \<le> MaxInt"
    and "int (length (users s)) + perPage \<le> MaxInt"
    and "int (length (users s)) * User_size \<le> maxAlloc"
  shows "ListUsers s page perPage =
     Inr (\<lparr>Users = take (nat perPage) (drop (nat ((page - 1) * perPage)) (records s)),
           Meta = \<lparr>Page = page, PerPage = perPage, Total = int (length (records s)),
                   TotalPages = (int (length (records s)) + perPage - 1) div perPage\<rparr>\<rparr>,
          None)"
proof -
  let ?N = "int (length (users s))"
  let ?start = "(page - 1) * perPage"
  let ?all = "map snd (users s)"
  have le: "?start + perPage \<le> MaxInt"
    using assms(3) by (simp add: algebra_simps)
  have s0: "0 \<le> ?start" using assms(1,2) by simp
  have page: "page \<le> MaxInt"
  proof -
    have "page * 1 \<le> page * perPage" using assms(1,2) by (intro mult_left_mono) auto
    with assms(3) show ?thesis by simp
  qed
  have m: "MinInt \<le> 0" by (simp add: MinInt_def)
  have w1: "go_sub (go_add ?N perPage) 1 = ?N + perPage - 1"
    using assms(2,4) m by (simp add: go_add_def go_sub_def wrap64_id)
  have w2: "go_div (?N + perPage - 1) perPage = Inr ((?N + perPage - 1) div perPage)"
    using assms(2,4) by (intro go_div_nonneg) auto
  have s1: "MinInt \<le> ?start" "?start \<le> MaxInt"
    using s0 le assms(2) m by linarith+
  have w3: "go_mul (go_sub page 1) perPage = ?start"
    using assms(1) page m s1 by (simp add: go_sub_def go_mul_def wrap64_id)
  have w4: "go_add ?start perPage = ?start + perPage"
    using s0 le assms(2) m by (simp add: go_add_def wrap64_id)
  show ?thesis
  proof (cases "?start \<ge> ?N")
    case True
    then have "drop (nat ?start) (records s) = []" by (simp add: records_def)
    with True show ?thesis
      by (simp add: ListUsers_def Let_def w1 w2 w3 w4 records_def)
  next
    case False
    note lt = False
    show ?thesis
    proof (cases "?start + perPage > ?N")
      case True
      have e2: "go_sub ?N ?start = ?N - ?start"
        using lt s0 assms(2,4) m by (simp add: go_sub_def wrap64_id)
      have "(?N - ?start) * User_size \<le> ?N * User_size"
        using s0 by (simp add: User_size_def)
      with lt assms(5) have mk: "\<not> makeslice_panics (?N - ?start)"
        by (simp add: makeslice_panics_def)
      have c: "copy_users ?all ?start ?N [] =
               Inr (take (nat (?N - ?start)) (drop (nat ?start) ?all))"
        using copy_users_in_range [OF s0, of ?N ?all "[]"] by simp
      have "length (drop (nat ?start) ?all) \<le> nat perPage"
        using True s0 by simp
      moreover have "length (drop (nat ?start) ?all) \<le> nat (?N - ?start)"
        using s0 by simp
      ultimately have t: "take (nat (?N - ?start)) (drop (nat ?start) ?all) =
               take (nat perPage) (drop (nat ?start) ?all)"
        by simp
      from lt True show ?thesis
        by (simp add: ListUsers_def Let_def w1 w2 w3 w4 e2 mk c t records_def)
    next
      case False
      have pp: "MinInt \<le> perPage" "perPage \<le> MaxInt"
        using assms(2) le s0 m by linarith+
      have e2: "go_sub (?start + perPage) ?start = perPage"
        using pp by (simp add: go_sub_def wrap64_id)
      have "perPage * User_size \<le> ?N * User_size"
        using False s0 by (simp add: User_size_def)
      with assms(2,5) have mk: "\<not> makeslice_panics perPage"
        by (simp add: makeslice_panics_def)
      have c: "copy_users ?all ?start (?start + perPage) [] =
               Inr (take (nat perPage) (drop (nat ?start) ?all))"
        using copy_users_in_range [OF s0, of "?start + perPage" ?all "[]"] False by simp
      from lt False assms(2) show ?thesis
        by (simp add: ListUsers_def Let_def w1 w2 w3 w4 e2 mk c records_def)
    qed
  qed
qed

lemma ListUsers_error_nil: "ListUsers s page perPage = Inr (resp, err) \<Longrightarrow> err = None"
  by (auto simp: ListUsers_def Let_def split: sum.splits if_splits)

lemma ListUsers_zero_perPage: "ListUsers s page 0 = Inl DivideByZero"
  by (simp add: ListUsers_def Let_def go_div_def)

lemma Atoi_Nil: "Atoi [] = None"
  by (simp add: Atoi_def)

lemma page_of_default:
  "pageParam = [] \<or> Atoi pageParam = None \<or> (\<exists>p. Atoi pageParam = Some p \<and> p \<le> 0)
   \<Longrightarrow> page_of pageParam = 1"
  by (auto simp: page_of_def)

lemma page_of_value: "Atoi pageParam = Some p \<Longrightarrow> 0 < p \<Longrightarrow> page_of pageParam = p"
  by (auto simp: page_of_def Atoi_Nil)

lemma perPage_of_default:
  "perPageParam = [] \<or> Atoi perPageParam = None \<or>
   (\<exists>pp. Atoi perPageParam = Some pp \<and> (pp \<le> 0 \<or> 100 < pp))
   \<Longrightarrow> perPage_of perPageParam = 10"
  by (auto simp: perPage_of_def)

lemma perPage_of_value:
  "Atoi perPageParam = Some pp \<Longrightarrow> 0 < pp \<Longrightarrow> pp \<le> 100 \<Longrightarrow> perPage_of perPageParam = pp"
  by (auto simp: perPage_of_def Atoi_Nil)

lemma page_of_positive: "1 \<le> page_of pageParam"
  by (simp add: page_of_def split: option.splits)

lemma perPage_of_range: "1 \<le> perPage_of perPageParam \<and> perPage_of perPageParam \<le> 100"
  by (simp add: perPage_of_def split: option.splits)

lemma Handler_ListUsers_in_range:
  assumes "page_of (QueryParam query ''page'') * perPage_of (QueryParam query ''per_page'') \<le> MaxInt"
    and "int (length (users s)) * User_size \<le> maxAlloc"
  shows "\<exists>resp. Handler_ListUsers s query = Inr (Response 200 (JSON_List resp))"
proof -
  let ?page = "page_of (QueryParam query ''page'')"
  let ?perPage = "perPage_of (QueryParam query ''per_page'')"
  have "int (length (users s)) + ?perPage \<le> MaxInt"
    using assms(2) perPage_of_range [of "QueryParam query ''per_page''"]
    by (simp add: User_size_def maxAlloc_def MaxInt_def)
  from ListUsers_in_range [OF page_of_positive _ assms(1) this assms(2)]
    perPage_of_range [of "QueryParam query ''per_page''"]
  show ?thesis
    by (simp add: Handler_ListUsers_def Let_def StatusOK_def)
qed

section \<open>Listing beyond the range of \<^verbatim>\<open>int\<close>\<close>

text \<open>Offsets that wrap, and the total pages of the sample stores.\<close>

lemma wrapped_offsets:
  "go_mul (go_sub 9223372036854775807 1) 10 = - 20"
  "go_mul (go_sub 9223372036854775807 1) 100 = - 200"
  "go_mul (go_sub 288230376151711745 1) 64 = 0"
  by (simp_all add: go_mul_def go_sub_def wrap64_def)

lemma total_pages_samples:
  "go_div (go_sub (go_add 0 10) 1) 10 = Inr 0"
  "go_div (go_sub (go_add 1 100) 1) 100 = Inr 1"
  "go_div (go_sub (go_add 2 64) 1) 64 = Inr 1"
  by (simp_all add: go_div_def go_add_def go_sub_def wrap64_def)

text \<open>
  C4. For every page and perPage from 1 on, \<^verbatim>\<open>ListUsers\<close> should report the count and
  the pages and return the records at the positions from \<open>(page - 1) * perPage\<close> on,
  or no record when that offset is beyond the count. \<open>ListUsers_in_range\<close> shows this
  while \<open>page * perPage\<close> fits an \<^verbatim>\<open>int\<close>. Beyond, the product wraps: for the largest
  page and 10 per page the offset is -20 and the copying loop reads index -20, a panic;
  for page \<open>2^58 + 1\<close> and 64 per page the offset is 0 and the first page is returned.
\<close>

theorem ListUsers_large_page:
  "ListUsers NewUserService 9223372036854775807 10 = Inl OutOfRange \<and>
   ListUsers two_users 288230376151711745 64 =
     Inr (\<lparr>Users = [ann_user, bob_user],
           Meta = \<lparr>Page = 288230376151711745, PerPage = 64, Total = 2, TotalPages = 1\<rparr>\<rparr>,
          None)"
proof
  have "go_add (- 20) 10 = - 10" by (simp add: go_add_def wrap64_def)
  moreover have "\<not> makeslice_panics (go_sub (- 10) (- 20))"
    by (simp add: makeslice_panics_def go_sub_def wrap64_def User_size_def maxAlloc_def)
  moreover have "copy_users [] (- 20) (- 10) [] = Inl OutOfRange"
    by (simp add: copy_users.simps)
  ultimately show "ListUsers NewUserService 9223372036854775807 10 = Inl OutOfRange"
    by (simp add: ListUsers_def Let_def NewUserService_def wrapped_offsets(1)
        total_pages_samples(1))
next
  have "go_add 0 64 = 64" by (simp add: go_add_def wrap64_def)
  moreover have "\<not> makeslice_panics (go_sub 2 0)"
    by (simp add: makeslice_panics_def go_sub_def wrap64_def User_size_def maxAlloc_def)
  moreover have "copy_users [ann_user, bob_user] 0 2 [] = Inr [ann_user, bob_user]"
    by (simp add: copy_users.simps)
  ultimately show "ListUsers two_users 288230376151711745 64 =
     Inr (\<lparr>Users = [ann_user, bob_user],
           Meta = \<lparr>Page = 288230376151711745, PerPage = 64, Total = 2, TotalPages = 1\<rparr>\<rparr>,
          None)"
    by (simp add: ListUsers_def Let_def two_users_eq wrapped_offsets(3)
        total_pages_samples(3))
qed

text \<open>
  C8. The list handler should always respond with status 200. The defaults of the claim
  hold (\<open>page_of_default\<close>, \<open>perPage_of_default\<close>), and so does the status while the
  offset fits an \<^verbatim>\<open>int\<close> (\<open>Handler_ListUsers_in_range\<close>). The handler bounds \<^verbatim>\<open>per_page\<close>
  by 100 but \<^verbatim>\<open>page\<close> only from below: with the largest page of the query the store
  panics and the handler answers nothing.
\<close>

theorem Handler_ListUsers_large_page:
  "page_of ''9223372036854775807'' = 9223372036854775807 \<and>
   perPage_of [] = 10 \<and>
   Handler_ListUsers NewUserService [(''page'', ''9223372036854775807'')] = Inl OutOfRange"
proof -
  have p: "page_of ''9223372036854775807'' = 9223372036854775807"
    by (simp add: page_of_def Atoi_def digit_val_def MaxInt_def MinInt_def)
  have pp: "perPage_of [] = 10"
    by (simp add: perPage_of_def)
  have "go_add (- 20) 10 = - 10" by (simp add: go_add_def wrap64_def)
  moreover have "\<not> makeslice_panics (go_sub (- 10) (- 20))"
    by (simp add: makeslice_panics_def go_sub_def wrap64_def User_size_def maxAlloc_def)
  moreover have "copy_users [] (- 20) (- 10) [] = Inl OutOfRange"
    by (simp add: copy_users.simps)
  ultimately have l: "ListUsers NewUserService 9223372036854775807 10 = Inl OutOfRange"
    by (simp add: ListUsers_def Let_def NewUserService_def wrapped_offsets(1)
        total_pages_samples(1))
  have "Handler_ListUsers NewUserService [(''page'', ''9223372036854775807'')] = Inl OutOfRange"
    by (simp add: Handler_ListUsers_def QueryParam_def Let_def p pp l)
  with p pp show ?thesis by simp
qed

text \<open>
  C10. With page and perPage from 1 on, \<^verbatim>\<open>ListUsers\<close> should always return, with a nil
  error. Whenever it returns the error is nil (\<open>ListUsers_error_nil\<close>), and with perPage
  0 it panics in the division (\<open>ListUsers_zero_perPage\<close>); but with the largest page
  and perPage 100, both as the handler passes them, it panics too.
\<close>

theorem ListUsers_no_result:
  "page_of ''9223372036854775807'' = 9223372036854775807 \<and>
   perPage_of ''100'' = 100 \<and>
   ListUsers one_user 9223372036854775807 100 = Inl OutOfRange \<and>
   ListUsers one_user 1 0 = Inl DivideByZero"
proof -
  have p: "page_of ''9223372036854775807'' = 9223372036854775807"
    by (simp add: page_of_def Atoi_def digit_val_def MaxInt_def MinInt_def)
  have pp: "perPage_of ''100'' = 100"
    by (simp add: perPage_of_def Atoi_def digit_val_def MaxInt_def MinInt_def)
  have "go_add (- 200) 100 = - 100" by (simp add: go_add_def wrap64_def)
  moreover have "\<not> makeslice_panics (go_sub (- 100) (- 200))"
    by (simp add: makeslice_panics_def go_sub_def wrap64_def User_size_def maxAlloc_def)
  moreover have "copy_users [ann_user] (- 200) (- 100) [] = Inl OutOfRange"
    by (simp add: copy_users.simps)
  ultimately have l: "ListUsers one_user 9223372036854775807 100 = Inl OutOfRange"
    by (simp add: ListUsers_def Let_def one_user_eq wrapped_offsets(2)
        total_pages_samples(2))
  have z: "ListUsers one_user 1 0 = Inl DivideByZero"
    by (simp add: ListUsers_def Let_def go_div_def)
  from p pp l z show ?thesis by simp
qed

end
